theory Spec2Isabelle
  imports Main "HOL-Library.Word"
begin

section \<open>Strings, bytes and the UTF-8 codec\<close>

text \<open>
  A Python \<open>str\<close> is a sequence of code points and a \<open>bytes\<close> value a sequence of
  octets. \<open>line.encode("utf-8")\<close> raises \<open>UnicodeEncodeError\<close> on a lone surrogate;
  \<open>bytes.decode("utf-8", errors="ignore")\<close> never raises and skips the octets of every
  ill-formed sequence.
\<close>

type_synonym pystr = "nat list"
type_synonym byte = "8 word"

datatype exn = UnicodeEncodeError | SerialException

definition encode_cp :: "nat \<Rightarrow> byte list option" where
  "encode_cp c =
     (if c < 0x80 then Some [of_nat c]
      else if c < 0x800 then Some [of_nat (0xC0 + c div 64), of_nat (0x80 + c mod 64)]
      else if 0xD800 \<le> c \<and> c \<le> 0xDFFF then None
      else if c < 0x10000 then
        Some [of_nat (0xE0 + c div 4096), of_nat (0x80 + (c div 64) mod 64),
              of_nat (0x80 + c mod 64)]
      else if c < 0x110000 then
        Some [of_nat (0xF0 + c div 262144), of_nat (0x80 + (c div 4096) mod 64),
              of_nat (0x80 + (c div 64) mod 64), of_nat (0x80 + c mod 64)]
      else None)"

fun utf8_encode :: "pystr \<Rightarrow> byte list option" where
  "utf8_encode [] = Some []"
| "utf8_encode (c # cs) =
     (case encode_cp c of
        None \<Rightarrow> None
      | Some bs \<Rightarrow> (case utf8_encode cs of None \<Rightarrow> None | Some r \<Rightarrow> Some (bs @ r)))"

definition is_cont :: "byte \<Rightarrow> bool" where
  "is_cont b \<longleftrightarrow> 0x80 \<le> unat b \<and> unat b \<le> 0xBF"

definition second_ok :: "byte \<Rightarrow> byte \<Rightarrow> bool" where
  "second_ok b0 b1 =
     (let l = unat b0; n = unat b1 in
      if l = 0xE0 then 0xA0 \<le> n \<and> n \<le> 0xBF
      else if l = 0xED then 0x80 \<le> n \<and> n \<le> 0x9F
      else if l = 0xF0 then 0x90 \<le> n \<and> n \<le> 0xBF
      else if l = 0xF4 then 0x80 \<le> n \<and> n \<le> 0x8F
      else 0x80 \<le> n \<and> n \<le> 0xBF)"

text \<open>
  One step of the decoder on lead octet \<open>b0\<close> followed by \<open>rest\<close>: the code point
  decoded, if the sequence is well formed, and how many octets after the lead one the step
  consumes (for an ill-formed sequence, the octets the \<open>ignore\<close> handler skips).
\<close>

definition utf8_step :: "byte \<Rightarrow> byte list \<Rightarrow> nat option \<times> nat" where
  "utf8_step b0 rest =
     (let l = unat b0 in
      if l < 0x80 then (Some l, 0)
      else if 0xC2 \<le> l \<and> l \<le> 0xDF then
        (case rest of
           [] \<Rightarrow> (None, 0)
         | b1 # _ \<Rightarrow>
             if is_cont b1 then (Some ((l mod 32) * 64 + unat b1 mod 64), 1) else (None, 0))
      else if 0xE0 \<le> l \<and> l \<le> 0xEF then
        (case rest of
           [] \<Rightarrow> (None, 0)
         | b1 # r1 \<Rightarrow>
             if \<not> second_ok b0 b1 then (None, 0)
             else (case r1 of
                     [] \<Rightarrow> (None, 1)
                   | b2 # _ \<Rightarrow>
                       if is_cont b2
                       then (Some ((l mod 16) * 4096 + (unat b1 mod 64) * 64 + unat b2 mod 64), 2)
                       else (None, 1)))
      else if 0xF0 \<le> l \<and> l \<le> 0xF4 then
        (case rest of
           [] \<Rightarrow> (None, 0)
         | b1 # r1 \<Rightarrow>
             if \<not> second_ok b0 b1 then (None, 0)
             else (case r1 of
                     [] \<Rightarrow> (None, 1)
                   | b2 # r2 \<Rightarrow>
                       if \<not> is_cont b2 then (None, 1)
                       else (case r2 of
                               [] \<Rightarrow> (None, 2)
                             | b3 # _ \<Rightarrow>
                                 if is_cont b3
                                 then (Some ((l mod 8) * 262144 + (unat b1 mod 64) * 4096
                                             + (unat b2 mod 64) * 64 + unat b3 mod 64), 3)
                                 else (None, 2))))
      else (None, 0))"

fun utf8_decode_ignore :: "byte list \<Rightarrow> pystr" where
  "utf8_decode_ignore [] = []"
| "utf8_decode_ignore (b # bs) =
     (case utf8_step b bs of
        (Some c, k) \<Rightarrow> c # utf8_decode_ignore (drop k bs)
      | (None, k) \<Rightarrow> utf8_decode_ignore (drop k bs))"

text \<open>The strict decoder (\<open>errors="strict"\<close>) fails where \<open>ignore\<close> skips.\<close>

fun utf8_decode_strict :: "byte list \<Rightarrow> pystr option" where
  "utf8_decode_strict [] = Some []"
| "utf8_decode_strict (b # bs) =
     (case utf8_step b bs of
        (Some c, k) \<Rightarrow> map_option ((#) c) (utf8_decode_strict (drop k bs))
      | (None, k) \<Rightarrow> None)"

text \<open>\<open>str.isspace\<close> on one code point, and \<open>str.strip()\<close>, which trims both ends.\<close>

definition isspace :: "nat \<Rightarrow> bool" where
  "isspace c \<longleftrightarrow>
     (0x09 \<le> c \<and> c \<le> 0x0D) \<or> (0x1C \<le> c \<and> c \<le> 0x20) \<or> c = 0x85 \<or> c = 0xA0 \<or>
     c = 0x1680 \<or> (0x2000 \<le> c \<and> c \<le> 0x200A) \<or> c = 0x2028 \<or> c = 0x2029 \<or>
     c = 0x202F \<or> c = 0x205F \<or> c = 0x3000"

definition strip :: "pystr \<Rightarrow> pystr" where
  "strip s = rev (dropWhile isspace (rev (dropWhile isspace s)))"

definition endswith_newline :: "pystr \<Rightarrow> bool" where
  "endswith_newline s \<longleftrightarrow> s \<noteq> [] \<and> last s = 10"

text \<open>An ASCII literal as a Python string.\<close>

definition lit :: "string \<Rightarrow> pystr" where
  "lit s = map of_char s"

section \<open>Serial transport\<close>

text \<open>
  The pyserial port object. \<open>tx\<close> holds every octet handed to \<open>write\<close>, \<open>flushed\<close>
  how many of them \<open>flush\<close> has pushed out, \<open>rx\<close> what the coming \<open>readline\<close> calls
  return: a line up to its newline, or the octets that arrived before the timeout ran out
  (none at all once \<open>rx\<close> is empty). A port that is no longer \<open>connected\<close> raises
  \<open>SerialException\<close> from every operation and keeps its state.
\<close>

record serial =
  connected :: bool
  tx :: "byte list"
  flushed :: nat
  rx :: "byte list list"

definition ser_write :: "serial \<Rightarrow> byte list \<Rightarrow> exn + serial" where
  "ser_write s bs = (if connected s then Inr (s\<lparr>tx := tx s @ bs\<rparr>) else Inl SerialException)"

definition ser_flush :: "serial \<Rightarrow> exn + serial" where
  "ser_flush s = (if connected s then Inr (s\<lparr>flushed := length (tx s)\<rparr>) else Inl SerialException)"

definition ser_readline :: "serial \<Rightarrow> exn + (byte list \<times> serial)" where
  "ser_readline s =
     (if \<not> connected s then Inl SerialException
      else case rx s of [] \<Rightarrow> Inr ([], s) | l # ls \<Rightarrow> Inr (l, s\<lparr>rx := ls\<rparr>))"

text \<open>
  \<open>ArduinoLink\<close>: the dataclass around the port. The delays (\<open>time.sleep\<close>) change
  no state and are left out.
\<close>

record ArduinoLink =
  ser :: serial

definition send_line :: "ArduinoLink \<Rightarrow> pystr \<Rightarrow> exn + ArduinoLink" where
  "send_line link line =
     (let line' = (if \<not> endswith_newline line then line @ [10] else line) in
      case utf8_encode line' of
        None \<Rightarrow> Inl UnicodeEncodeError
      | Some bs \<Rightarrow>
          (case ser_write (ser link) bs of
             Inl e \<Rightarrow> Inl e
           | Inr s1 \<Rightarrow>
               (case ser_flush s1 of
                  Inl e \<Rightarrow> Inl e
                | Inr s2 \<Rightarrow> Inr (link\<lparr>ser := s2\<rparr>))))"

definition read_line :: "ArduinoLink \<Rightarrow> pystr \<times> ArduinoLink" where
  "read_line link =
     (case ser_readline (ser link) of
        Inl e \<Rightarrow> ([], link)
      | Inr (bs, s') \<Rightarrow> (strip (utf8_decode_ignore bs), link\<lparr>ser := s'\<rparr>))"

section \<open>The chess rules engine\<close>

text \<open>
  The rules of chess come from the python-chess library, which is no part of the program.
  Its values are modelled as the library has them; the board type stays abstract and the
  operations the program calls are the fields of an \<open>engine\<close>, over which every theorem
  quantifies. \<open>legal_moves\<close> is the iteration over \<open>board.legal_moves\<close> and
  \<open>is_legal\<close> the test \<open>move in board.legal_moves\<close>: the library answers them by
  different routines (the generator and \<open>Board.is_legal\<close>), so they are two fields.
\<close>

datatype color = White | Black

datatype piece_type = Pawn | Knight | Bishop | Rook | Queen | King

record piece =
  piece_type :: piece_type
  color :: color

record move =
  from_square :: nat
  to_square :: nat
  promotion :: "piece_type option"

record 'b engine =
  new_board :: 'b
  legal_moves :: "'b \<Rightarrow> move list"
  is_legal :: "'b \<Rightarrow> move \<Rightarrow> bool"
  piece_at :: "'b \<Rightarrow> nat \<Rightarrow> piece option"
  turn :: "'b \<Rightarrow> color"
  push :: "'b \<Rightarrow> move \<Rightarrow> 'b"
  is_capture :: "'b \<Rightarrow> move \<Rightarrow> bool"
  is_game_over :: "'b \<Rightarrow> bool"
  fen :: "'b \<Rightarrow> pystr"

text \<open>\<open>chess.square(file, rank)\<close> and \<open>chess.square_rank(sq)\<close>.\<close>

definition square :: "nat \<Rightarrow> nat \<Rightarrow> nat" where
  "square file rank = rank * 8 + file"

definition square_rank :: "nat \<Rightarrow> nat" where
  "square_rank sq = sq div 8"

text \<open>
  \<open>random.choice(seq)\<close> on a non-empty sequence returns \<open>seq[k]\<close> for an index
  \<open>k\<close> below its length, drawn by the generator; \<open>r\<close> stands for the generator's
  output and \<open>r mod length seq\<close> for that index.
\<close>

definition choice :: "'a list \<Rightarrow> nat \<Rightarrow> 'a" where
  "choice seq r = seq ! (r mod length seq)"

section \<open>The chess GUI\<close>

text \<open>
  \<open>send_fen\<close> and the state of \<open>ChessGUI\<close>: the link, the board, the selection with
  its two target sets, and the mode chosen by the radio buttons. Drawing the board
  (\<open>update_board\<close>), the end-of-game dialog and the console output change none of these
  and are left out.
\<close>

definition send_fen :: "'b engine \<Rightarrow> ArduinoLink \<Rightarrow> 'b \<Rightarrow> exn + ArduinoLink" where
  "send_fen E lnk b = send_line lnk (fen E b)"

datatype mode = Pvp | Pvc

record 'b ChessGUI =
  link :: ArduinoLink
  board :: 'b
  selected_square :: "nat option"
  legal_targets :: "nat set"
  capture_targets :: "nat set"
  mode_var :: mode

text \<open>\<open>send_position_to_arduino\<close> catches every exception of \<open>send_fen\<close>.\<close>

definition send_position_to_arduino :: "'b engine \<Rightarrow> 'b ChessGUI \<Rightarrow> 'b ChessGUI" where
  "send_position_to_arduino E g =
     (case send_fen E (link g) (board g) of
        Inl e \<Rightarrow> g
      | Inr l \<Rightarrow> g\<lparr>link := l\<rparr>)"

text \<open>The loop of \<open>_compute_targets_for_selected\<close> over the legal moves.\<close>

fun targets_loop ::
  "'b engine \<Rightarrow> 'b \<Rightarrow> nat \<Rightarrow> move list \<Rightarrow> nat set \<times> nat set \<Rightarrow> nat set \<times> nat set" where
  "targets_loop E b sel [] acc = acc"
| "targets_loop E b sel (m # ms) (lt, ct) =
     (if from_square m = sel
      then targets_loop E b sel ms
             (insert (to_square m) lt,
              if is_capture E b m then insert (to_square m) ct else ct)
      else targets_loop E b sel ms (lt, ct))"

definition compute_targets_for_selected :: "'b engine \<Rightarrow> 'b ChessGUI \<Rightarrow> 'b ChessGUI" where
  "compute_targets_for_selected E g =
     (case selected_square g of
        None \<Rightarrow> g\<lparr>legal_targets := {}, capture_targets := {}\<rparr>
      | Some sel \<Rightarrow>
          (case targets_loop E (board g) sel (legal_moves E (board g)) ({}, {}) of
             (lt, ct) \<Rightarrow> g\<lparr>legal_targets := lt, capture_targets := ct\<rparr>))"

definition is_pawn_promotion :: "'b engine \<Rightarrow> 'b ChessGUI \<Rightarrow> nat \<Rightarrow> nat \<Rightarrow> bool" where
  "is_pawn_promotion E g from_sq to_sq =
     (case piece_at E (board g) from_sq of
        None \<Rightarrow> False
      | Some p \<Rightarrow>
          if piece_type p \<noteq> Pawn then False
          else (let to_rank = square_rank to_sq in
                (color p = White \<and> to_rank = 7) \<or> (color p = Black \<and> to_rank = 0)))"

text \<open>\<open>_make_computer_move\<close>; \<open>r\<close> is the output of the random generator.\<close>

definition make_computer_move :: "'b engine \<Rightarrow> nat \<Rightarrow> 'b ChessGUI \<Rightarrow> 'b ChessGUI" where
  "make_computer_move E r g =
     (if is_game_over E (board g) then g
      else (let legal = legal_moves E (board g) in
            if legal = [] then g
            else (let mv = choice legal r;
                      g1 = g\<lparr>board := push E (board g) mv\<rparr>;
                      g2 = send_position_to_arduino E g1
                  in g2\<lparr>link := snd (read_line (link g2))\<rparr>)))"

text \<open>Clearing the selection and both target sets.\<close>

definition clear_selection :: "'b ChessGUI \<Rightarrow> 'b ChessGUI" where
  "clear_selection g = g\<lparr>selected_square := None, legal_targets := {}, capture_targets := {}\<rparr>"

text \<open>
  \<open>on_square_clicked(rank, file)\<close>. The two early returns come first; then the first
  click selects a piece of the side to move, and the second click deselects, moves or
  drops the selection.
\<close>

definition on_square_clicked :: "'b engine \<Rightarrow> nat \<Rightarrow> nat \<Rightarrow> nat \<Rightarrow> 'b ChessGUI \<Rightarrow> 'b ChessGUI" where
  "on_square_clicked E r rank file g =
     (if is_game_over E (board g) then g
      else if mode_var g = Pvc \<and> turn E (board g) = Black then g
      else (let sq = square file rank in
        case selected_square g of
          None \<Rightarrow>
            (case piece_at E (board g) sq of
               None \<Rightarrow> g
             | Some p \<Rightarrow>
                 if color p \<noteq> turn E (board g) then g
                 else compute_targets_for_selected E (g\<lparr>selected_square := Some sq\<rparr>))
        | Some sel \<Rightarrow>
            if sq = sel then clear_selection g
            else (let mv0 = \<lparr>from_square = sel, to_square = sq, promotion = None\<rparr>;
                      mv = (if \<not> is_legal E (board g) mv0
                            then (if is_pawn_promotion E g sel sq
                                  then \<lparr>from_square = sel, to_square = sq, promotion = Some Queen\<rparr>
                                  else mv0)
                            else mv0)
                  in if is_legal E (board g) mv
                     then (let g1 = clear_selection (g\<lparr>board := push E (board g) mv\<rparr>);
                               g2 = send_position_to_arduino E g1;
                               g3 = g2\<lparr>link := snd (read_line (link g2))\<rparr>
                           in if is_game_over E (board g3) then g3
                              else if mode_var g3 = Pvc then make_computer_move E r g3
                              else g3)
                     else clear_selection g)))"

definition reset_game :: "'b engine \<Rightarrow> 'b ChessGUI \<Rightarrow> 'b ChessGUI" where
  "reset_game E g =
     send_position_to_arduino E (clear_selection (g\<lparr>board := new_board E\<rparr>))"

text \<open>\<open>ChessGUI.__init__\<close> on an open link.\<close>

definition init_gui :: "'b engine \<Rightarrow> ArduinoLink \<Rightarrow> 'b ChessGUI" where
  "init_gui E l =
     send_position_to_arduino E
       \<lparr>link = l, board = new_board E, selected_square = None, legal_targets = {},
        capture_targets = {}, mode_var = Pvp\<rparr>"

text \<open>
  What the user can do to a running GUI: click a square (the random output is consumed
  if the machine replies), pick a mode, press the reset button.
\<close>

datatype event = Click nat nat nat | SetMode mode | Reset

fun step :: "'b engine \<Rightarrow> event \<Rightarrow> 'b ChessGUI \<Rightarrow> 'b ChessGUI" where
  "step E (Click r rank file) g = on_square_clicked E r rank file g"
| "step E (SetMode m) g = g\<lparr>mode_var := m\<rparr>"
| "step E Reset g = reset_game E g"

fun run :: "'b engine \<Rightarrow> event list \<Rightarrow> 'b ChessGUI \<Rightarrow> 'b ChessGUI" where
  "run E [] g = g"
| "run E (ev # evs) g = run E evs (step E ev g)"

section \<open>A scripted engine\<close>

text \<open>
  A test double for the library: a handful of positions, each with the legal moves, the
  pieces, the side to move, the end-of-game verdict and the FEN that python-chess gives
  for it. A move that leaves the script leads to \<open>Off\<close>, an empty board.

  \<^item> \<open>Start\<close>: the initial position; \<open>AfterE4\<close>: after 1. e4; \<open>AfterE4E5\<close>: after 1. e4 e5.
  \<^item> \<open>BareKings\<close>: \<open>8/8/8/4k3/8/8/8/4K3 w\<close>, drawn by insufficient material, so the game
    is over although the king has moves.
  \<^item> \<open>PawnA7\<close>: \<open>4k3/P7/8/8/8/8/8/4K3 w\<close>; \<open>QueenA8\<close> and \<open>KnightA8\<close> follow it by
    a7-a8=Q and a7-a8=N (the latter again drawn by insufficient material).
  \<^item> \<open>PawnA2\<close>: \<open>4k3/8/8/8/8/8/p7/4K3 b\<close>; \<open>QueenA1\<close> follows it by a2-a1=Q.
  \<^item> \<open>Capture\<close>: \<open>4k3/8/8/8/8/8/p7/1K6 w\<close>, where the king can take the pawn on a2.
  \<^item> \<open>CastleReady\<close>: \<open>4k3/8/8/8/8/8/8/4K2R w K\<close>; \<open>Castled\<close> follows it by castling.
    The enumeration lists castling as e1-g1 only; the legality test of the library also
    accepts it written as the king moving onto its rook, e1-h1, and \<open>push\<close> castles
    on either.

  Squares are numbered a1 = 0, b1 = 1, ..., h1 = 7, a2 = 8, ..., h8 = 63.
\<close>

datatype pos =
  Start | AfterE4 | AfterE4E5 | BareKings | PawnA7 | QueenA8 | KnightA8 | PawnA2 | QueenA1
  | Capture | CastleReady | Castled | Off

abbreviation mv :: "nat \<Rightarrow> nat \<Rightarrow> move" where
  "mv f t \<equiv> \<lparr>from_square = f, to_square = t, promotion = None\<rparr>"

abbreviation pm :: "nat \<Rightarrow> nat \<Rightarrow> piece_type \<Rightarrow> move" where
  "pm f t p \<equiv> \<lparr>from_square = f, to_square = t, promotion = Some p\<rparr>"

abbreviation pc :: "piece_type \<Rightarrow> color \<Rightarrow> piece" where
  "pc t c \<equiv> \<lparr>piece_type = t, color = c\<rparr>"

fun demo_legal :: "pos \<Rightarrow> move list" where
  "demo_legal Start =
     [mv 6 23, mv 6 21, mv 1 18, mv 1 16,
      mv 15 23, mv 14 22, mv 13 21, mv 12 20, mv 11 19, mv 10 18, mv 9 17, mv 8 16,
      mv 15 31, mv 14 30, mv 13 29, mv 12 28, mv 11 27, mv 10 26, mv 9 25, mv 8 24]"
| "demo_legal AfterE4 =
     [mv 62 47, mv 62 45, mv 57 42, mv 57 40,
      mv 55 47, mv 54 46, mv 53 45, mv 52 44, mv 51 43, mv 50 42, mv 49 41, mv 48 40,
      mv 55 39, mv 54 38, mv 53 37, mv 52 36, mv 51 35, mv 50 34, mv 49 33, mv 48 32]"
| "demo_legal AfterE4E5 =
     [mv 6 23, mv 6 21, mv 6 12, mv 5 40, mv 5 33, mv 5 26, mv 5 19, mv 5 12, mv 4 12,
      mv 3 39, mv 3 30, mv 3 21, mv 3 12, mv 1 18, mv 1 16,
      mv 15 23, mv 14 22, mv 13 21, mv 11 19, mv 10 18, mv 9 17, mv 8 16,
      mv 15 31, mv 14 30, mv 13 29, mv 11 27, mv 10 26, mv 9 25, mv 8 24]"
| "demo_legal BareKings = [mv 4 13, mv 4 12, mv 4 11, mv 4 5, mv 4 3]"
| "demo_legal PawnA7 =
     [mv 4 13, mv 4 12, mv 4 11, mv 4 5, mv 4 3,
      pm 48 56 Queen, pm 48 56 Rook, pm 48 56 Bishop, pm 48 56 Knight]"
| "demo_legal QueenA8 = [mv 60 53, mv 60 52, mv 60 51]"
| "demo_legal KnightA8 = [mv 60 61, mv 60 59, mv 60 53, mv 60 52, mv 60 51]"
| "demo_legal PawnA2 =
     [mv 60 61, mv 60 59, mv 60 53, mv 60 52, mv 60 51,
      pm 8 0 Queen, pm 8 0 Rook, pm 8 0 Bishop, pm 8 0 Knight]"
| "demo_legal QueenA1 = [mv 4 13, mv 4 12, mv 4 11]"
| "demo_legal Capture = [mv 1 10, mv 1 9, mv 1 8, mv 1 2, mv 1 0]"
| "demo_legal CastleReady =
     [mv 7 63, mv 7 55, mv 7 47, mv 7 39, mv 7 31, mv 7 23, mv 7 15, mv 7 6, mv 7 5,
      mv 4 13, mv 4 12, mv 4 11, mv 4 5, mv 4 3, mv 4 6]"
| "demo_legal Castled = [mv 60 59, mv 60 52, mv 60 51]"
| "demo_legal Off = []"

definition back_rank :: "piece_type list" where
  "back_rank = [Rook, Knight, Bishop, Queen, King, Bishop, Knight, Rook]"

definition start_piece :: "nat \<Rightarrow> piece option" where
  "start_piece sq =
     (if sq < 8 then Some (pc (back_rank ! sq) White)
      else if sq < 16 then Some (pc Pawn White)
      else if 48 \<le> sq \<and> sq < 56 then Some (pc Pawn Black)
      else if 56 \<le> sq \<and> sq < 64 then Some (pc (back_rank ! (sq - 56)) Black)
      else None)"

fun demo_piece_at :: "pos \<Rightarrow> nat \<Rightarrow> piece option" where
  "demo_piece_at Start sq = start_piece sq"
| "demo_piece_at AfterE4 sq =
     (if sq = 12 then None else if sq = 28 then Some (pc Pawn White) else start_piece sq)"
| "demo_piece_at AfterE4E5 sq =
     (if sq = 12 \<or> sq = 52 then None
      else if sq = 28 then Some (pc Pawn White)
      else if sq = 36 then Some (pc Pawn Black)
      else start_piece sq)"
| "demo_piece_at BareKings sq = map_of [(4, pc King White), (36, pc King Black)] sq"
| "demo_piece_at PawnA7 sq =
     map_of [(4, pc King White), (48, pc Pawn White), (60, pc King Black)] sq"
| "demo_piece_at QueenA8 sq =
     map_of [(4, pc King White), (56, pc Queen White), (60, pc King Black)] sq"
| "demo_piece_at KnightA8 sq =
     map_of [(4, pc King White), (56, pc Knight White), (60, pc King Black)] sq"
| "demo_piece_at PawnA2 sq =
     map_of [(4, pc King White), (8, pc Pawn Black), (60, pc King Black)] sq"
| "demo_piece_at QueenA1 sq =
     map_of [(4, pc King White), (0, pc Queen Black), (60, pc King Black)] sq"
| "demo_piece_at Capture sq =
     map_of [(1, pc King White), (8, pc Pawn Black), (60, pc King Black)] sq"
| "demo_piece_at CastleReady sq =
     map_of [(4, pc King White), (7, pc Rook White), (60, pc King Black)] sq"
| "demo_piece_at Castled sq =
     map_of [(6, pc King White), (5, pc Rook White), (60, pc King Black)] sq"
| "demo_piece_at Off sq = None"

fun demo_turn :: "pos \<Rightarrow> color" where
  "demo_turn AfterE4 = Black"
| "demo_turn QueenA8 = Black"
| "demo_turn KnightA8 = Black"
| "demo_turn PawnA2 = Black"
| "demo_turn Castled = Black"
| "demo_turn b = White"

fun demo_push :: "pos \<Rightarrow> move \<Rightarrow> pos" where
  "demo_push Start m = (if m = mv 12 28 then AfterE4 else Off)"
| "demo_push AfterE4 m = (if m = mv 52 36 then AfterE4E5 else Off)"
| "demo_push PawnA7 m =
     (if m = pm 48 56 Queen then QueenA8 else if m = pm 48 56 Knight then KnightA8 else Off)"
| "demo_push PawnA2 m = (if m = pm 8 0 Queen then QueenA1 else Off)"
| "demo_push CastleReady m = (if m = mv 4 6 \<or> m = mv 4 7 then Castled else Off)"
| "demo_push b m = Off"

text \<open>\<open>Board.is_capture\<close>: the destination holds a piece of the other side.\<close>

definition demo_is_capture :: "pos \<Rightarrow> move \<Rightarrow> bool" where
  "demo_is_capture b m =
     (case demo_piece_at b (to_square m) of
        None \<Rightarrow> False
      | Some p \<Rightarrow> color p \<noteq> demo_turn b)"

fun demo_is_game_over :: "pos \<Rightarrow> bool" where
  "demo_is_game_over BareKings = True"
| "demo_is_game_over KnightA8 = True"
| "demo_is_game_over b = False"

fun demo_fen :: "pos \<Rightarrow> pystr" where
  "demo_fen Start = lit ''rnbqkbnr/pppppppp/8/8/8/8/PPPPPPPP/RNBQKBNR w KQkq - 0 1''"
| "demo_fen AfterE4 = lit ''rnbqkbnr/pppppppp/8/8/4P3/8/PPPP1PPP/RNBQKBNR b KQkq - 0 1''"
| "demo_fen AfterE4E5 = lit ''rnbqkbnr/pppp1ppp/8/4p3/4P3/8/PPPP1PPP/RNBQKBNR w KQkq - 0 2''"
| "demo_fen BareKings = lit ''8/8/8/4k3/8/8/8/4K3 w - - 0 1''"
| "demo_fen PawnA7 = lit ''4k3/P7/8/8/8/8/8/4K3 w - - 0 1''"
| "demo_fen QueenA8 = lit ''Q3k3/8/8/8/8/8/8/4K3 b - - 0 1''"
| "demo_fen KnightA8 = lit ''N3k3/8/8/8/8/8/8/4K3 b - - 0 1''"
| "demo_fen PawnA2 = lit ''4k3/8/8/8/8/8/p7/4K3 b - - 0 1''"
| "demo_fen QueenA1 = lit ''4k3/8/8/8/8/8/8/q3K3 w - - 0 2''"
| "demo_fen Capture = lit ''4k3/8/8/8/8/8/p7/1K6 w - - 0 1''"
| "demo_fen CastleReady = lit ''4k3/8/8/8/8/8/8/4K2R w K - 0 1''"
| "demo_fen Castled = lit ''4k3/8/8/8/8/8/8/5RK1 b - - 1 1''"
| "demo_fen Off = lit ''8/8/8/8/8/8/8/8 w - - 0 1''"

text \<open>\<open>move in board.legal_moves\<close>, that is \<open>Board.is_legal\<close>.\<close>

definition demo_is_legal :: "pos \<Rightarrow> move \<Rightarrow> bool" where
  "demo_is_legal b m \<longleftrightarrow> m \<in> set (demo_legal b) \<or> (b = CastleReady \<and> m = mv 4 7)"

definition demo :: "pos engine" where
  "demo =
     \<lparr>new_board = Start, legal_moves = demo_legal,
      is_legal = demo_is_legal, piece_at = demo_piece_at,
      turn = demo_turn, push = demo_push, is_capture = demo_is_capture,
      is_game_over = demo_is_game_over, fen = demo_fen\<rparr>"

text \<open>A connected port on which nothing has been written and nothing will arrive.\<close>

definition quiet_link :: ArduinoLink where
  "quiet_link = \<lparr>ser = \<lparr>connected = True, tx = [], flushed = 0, rx = []\<rparr>\<rparr>"

text \<open>An idle GUI on a given board, in a given mode.\<close>

definition idle_on :: "'b \<Rightarrow> mode \<Rightarrow> 'b ChessGUI" where
  "idle_on b m =
     \<lparr>link = quiet_link, board = b, selected_square = None, legal_targets = {},
      capture_targets = {}, mode_var = m\<rparr>"

text \<open>
  What the library guarantees for the moves it enumerates on a board: the legality test
  accepts each of them, origin and destination differ, the origin holds a piece of the
  side to move, and a promoting move is a pawn's move to the last rank of its colour
  whose form without the promotion piece the legality test rejects.
\<close>

definition engine_coherent :: "'b engine \<Rightarrow> 'b \<Rightarrow> bool" where
  "engine_coherent E b \<longleftrightarrow>
     (\<forall>m \<in> set (legal_moves E b).
        is_legal E b m \<and> from_square m \<noteq> to_square m \<and>
        (case piece_at E b (from_square m) of
           None \<Rightarrow> False
         | Some p \<Rightarrow>
             color p = turn E b \<and>
             (promotion m \<noteq> None \<longrightarrow>
                piece_type p = Pawn \<and>
                square_rank (to_square m) = (if color p = White then 7 else 0) \<and>
                \<not> is_legal E b (m\<lparr>promotion := None\<rparr>))))"

text \<open>
  Five states with a selection. \<open>selecting_e2\<close>, \<open>selecting_a7\<close> and
  \<open>selecting_e1\<close>: one click on the e2 pawn of the initial position, on the a7 pawn of
  \<open>PawnA7\<close> and on the king of \<open>CastleReady\<close>, with two players.
  \<open>machine_turn_e7\<close>: a two-player game goes 1. e4, Black selects the e7 pawn, and the
  mode is then switched to human against machine. \<open>machine_turn_a2\<close>: Black selects the
  a2 pawn of \<open>PawnA2\<close> and the mode is switched likewise.
\<close>

definition selecting_e2 :: "pos ChessGUI" where
  "selecting_e2 = on_square_clicked demo 0 1 4 (idle_on Start Pvp)"

definition selecting_a7 :: "pos ChessGUI" where
  "selecting_a7 = on_square_clicked demo 0 6 0 (idle_on PawnA7 Pvp)"

definition selecting_e1 :: "pos ChessGUI" where
  "selecting_e1 = on_square_clicked demo 0 0 4 (idle_on CastleReady Pvp)"

definition machine_turn_e7 :: "pos ChessGUI" where
  "machine_turn_e7 =
     run demo [Click 0 1 4, Click 0 3 4, Click 0 6 4, SetMode Pvc] (init_gui demo quiet_link)"

definition machine_turn_a2 :: "pos ChessGUI" where
  "machine_turn_a2 = run demo [Click 0 1 0, SetMode Pvc] (idle_on PawnA2 Pvp)"

text \<open>A link whose next line is \<open>O\<close>, an octet that is no UTF-8, \<open>K\<close>, newline.\<close>

definition garbled_link :: ArduinoLink where
  "garbled_link =
     \<lparr>ser = \<lparr>connected = True, tx = [], flushed = 0, rx = [[0x4F, 0xFF, 0x4B, 0x0A]]\<rparr>\<rparr>"

text \<open>A link whose next line is \<open>OK\<close>, carriage return, newline.\<close>

definition answering_link :: ArduinoLink where
  "answering_link =
     \<lparr>ser = \<lparr>connected = True, tx = [], flushed = 0, rx = [[0x4F, 0x4B, 0x0D, 0x0A]]\<rparr>\<rparr>"

section \<open>The serial link\<close>

lemma utf8_encode_append:
  "utf8_encode (xs @ ys) =
     (case utf8_encode xs of
        None \<Rightarrow> None
      | Some a \<Rightarrow> (case utf8_encode ys of None \<Rightarrow> None | Some b \<Rightarrow> Some (a @ b)))"
  by (induction xs) (auto split: option.splits)

lemma send_line_ok:
  assumes "connected (ser l)" and "utf8_encode text = Some bs"
  shows "send_line l text =
           Inr (l\<lparr>ser := (ser l)
                 \<lparr>tx := tx (ser l) @ (if endswith_newline text then bs else bs @ [10]),
                  flushed :=
                    length (tx (ser l) @ (if endswith_newline text then bs else bs @ [10]))\<rparr>\<rparr>)"
  using assms
  by (simp add: send_line_def ser_write_def ser_flush_def utf8_encode_append encode_cp_def)

text \<open>
  Claim C8. On a connected port, \<open>send_line\<close> hands to \<open>write\<close> exactly the UTF-8
  octets of the text, followed by one newline octet when the text does not already end in
  a newline and by nothing when it does, and flushes them all: \<open>tx\<close> grows by these
  octets and \<open>flushed\<close> reaches its end.
\<close>

theorem send_line_writes_text_and_newline:
  assumes "connected (ser l)" and "utf8_encode text = Some bs"
  shows "send_line l text =
           Inr (l\<lparr>ser := (ser l)
                 \<lparr>tx := tx (ser l) @ (if endswith_newline text then bs else bs @ [10]),
                  flushed :=
                    length (tx (ser l) @ (if endswith_newline text then bs else bs @ [10]))\<rparr>\<rparr>)"
  using assms by (rule send_line_ok)

theorem send_line_writes_text_and_newline_witness:
  "connected (ser quiet_link) \<and>
   utf8_encode [0x61, 0xE9, 0x20AC] = Some [0x61, 0xC3, 0xA9, 0xE2, 0x82, 0xAC] \<and>
   \<not> endswith_newline [0x61, 0xE9, 0x20AC] \<and>
   send_line quiet_link [0x61, 0xE9, 0x20AC] =
     Inr \<lparr>ser = \<lparr>connected = True, tx = [0x61, 0xC3, 0xA9, 0xE2, 0x82, 0xAC, 10],
                   flushed = 7, rx = []\<rparr>\<rparr> \<and>
   utf8_encode (lit ''ab'' @ [10]) = Some [97, 98, 10] \<and>
   endswith_newline (lit ''ab'' @ [10]) \<and>
   send_line quiet_link (lit ''ab'' @ [10]) =
     Inr \<lparr>ser = \<lparr>connected = True, tx = [97, 98, 10], flushed = 3, rx = []\<rparr>\<rparr>"
proof -
  have up: "connected (ser quiet_link)"
    by (simp add: quiet_link_def)
  have e1: "utf8_encode [0x61, 0xE9, 0x20AC] = Some [0x61, 0xC3, 0xA9, 0xE2, 0x82, 0xAC]"
    by (simp add: encode_cp_def)
  have e2: "utf8_encode (lit ''ab'' @ [10]) = Some [97, 98, 10]"
    by (simp add: lit_def encode_cp_def)
  have n1: "\<not> endswith_newline [0x61, 0xE9, 0x20AC]"
    and n2: "endswith_newline (lit ''ab'' @ [10])"
    by (simp_all add: lit_def endswith_newline_def)
  from send_line_writes_text_and_newline [OF up e1]
       send_line_writes_text_and_newline [OF up e2] up e1 e2 n1 n2
  show ?thesis
    by (simp add: quiet_link_def)
qed

text \<open>
  Claim C7, as the code has it. \<open>read_line\<close> never raises. On a connected port it
  returns what \<open>readline\<close> delivered, decoded with every undecodable octet skipped and
  trimmed of white space at both ends; that is the empty string when nothing arrived
  before the timeout. When the port raises, it returns the empty string.
\<close>

theorem read_line_never_raises:
  "read_line l =
     (if connected (ser l)
      then (case rx (ser l) of
              [] \<Rightarrow> ([], l)
            | bs # rest \<Rightarrow> (strip (utf8_decode_ignore bs), l\<lparr>ser := (ser l)\<lparr>rx := rest\<rparr>\<rparr>))
      else ([], l))"
  by (simp add: read_line_def ser_readline_def strip_def split: list.splits)

theorem read_line_never_raises_witness:
  "read_line answering_link = (lit ''OK'', quiet_link) \<and>
   read_line quiet_link = ([], quiet_link) \<and>
   read_line (quiet_link\<lparr>ser := (ser quiet_link)\<lparr>connected := False\<rparr>\<rparr>)
     = ([], quiet_link\<lparr>ser := (ser quiet_link)\<lparr>connected := False\<rparr>\<rparr>)"
proof -
  have d: "strip (utf8_decode_ignore [0x4F, 0x4B, 0x0D, 0x0A]) = lit ''OK''"
    by (simp add: utf8_step_def strip_def isspace_def lit_def)
  from read_line_never_raises [of answering_link] read_line_never_raises [of quiet_link]
       read_line_never_raises [of "quiet_link\<lparr>ser := (ser quiet_link)\<lparr>connected := False\<rparr>\<rparr>"] d
  show ?thesis
    by (simp add: answering_link_def quiet_link_def)
qed

text \<open>
  Claim C7 as stated fails: it promises the empty string on a decode failure. The line
  \<open>O\<close>, \<open>0xFF\<close>, \<open>K\<close>, newline is no UTF-8 (the strict decoder fails on it), it
  arrived whole, and \<open>read_line\<close> returns \<open>OK\<close>.
\<close>

theorem read_line_decode_failure_counterexample:
  "utf8_decode_strict [0x4F, 0xFF, 0x4B, 0x0A] = None \<and>
   rx (ser garbled_link) = [[0x4F, 0xFF, 0x4B, 0x0A]] \<and>
   fst (read_line garbled_link) = lit ''OK'' \<and>
   fst (read_line garbled_link) \<noteq> []"
  by (simp add: utf8_step_def strip_def isspace_def lit_def garbled_link_def read_line_def
        ser_readline_def)

section \<open>Selection and target sets\<close>

lemma send_position_fields [simp]:
  "board (send_position_to_arduino E g) = board g"
  "selected_square (send_position_to_arduino E g) = selected_square g"
  "legal_targets (send_position_to_arduino E g) = legal_targets g"
  "capture_targets (send_position_to_arduino E g) = capture_targets g"
  "mode_var (send_position_to_arduino E g) = mode_var g"
  by (simp_all add: send_position_to_arduino_def split: sum.splits)

lemma make_computer_move_fields [simp]:
  "selected_square (make_computer_move E r g) = selected_square g"
  "legal_targets (make_computer_move E r g) = legal_targets g"
  "capture_targets (make_computer_move E r g) = capture_targets g"
  "mode_var (make_computer_move E r g) = mode_var g"
  by (simp_all add: make_computer_move_def Let_def)

lemma make_computer_move_board:
  "board (make_computer_move E r g) =
     (if is_game_over E (board g) \<or> legal_moves E (board g) = [] then board g
      else push E (board g) (choice (legal_moves E (board g)) r))"
  by (simp add: make_computer_move_def Let_def)

lemma compute_targets_fields [simp]:
  "board (compute_targets_for_selected E g) = board g"
  "link (compute_targets_for_selected E g) = link g"
  "mode_var (compute_targets_for_selected E g) = mode_var g"
  "selected_square (compute_targets_for_selected E g) = selected_square g"
  by (simp_all add: compute_targets_for_selected_def split: option.splits prod.splits)

lemma targets_loop_subset:
  "ct \<subseteq> lt \<Longrightarrow>
   snd (targets_loop E b sel ms (lt, ct)) \<subseteq> fst (targets_loop E b sel ms (lt, ct))"
proof (induction ms arbitrary: lt ct)
  case Nil
  then show ?case by simp
next
  case (Cons m ms)
  from Cons.prems have "insert (to_square m) ct \<subseteq> insert (to_square m) lt"
    and "ct \<subseteq> insert (to_square m) lt"
    by auto
  then show ?case
    using Cons.prems by (simp add: Cons.IH)
qed

lemma compute_targets_subset:
  "capture_targets (compute_targets_for_selected E g)
     \<subseteq> legal_targets (compute_targets_for_selected E g)"
proof (cases "selected_square g")
  case None
  then show ?thesis by (simp add: compute_targets_for_selected_def)
next
  case (Some sel)
  have "snd (targets_loop E (board g) sel (legal_moves E (board g)) ({}, {}))
          \<subseteq> fst (targets_loop E (board g) sel (legal_moves E (board g)) ({}, {}))"
    by (rule targets_loop_subset) simp
  with Some show ?thesis
    by (cases "targets_loop E (board g) sel (legal_moves E (board g)) ({}, {})")
       (simp add: compute_targets_for_selected_def)
qed

lemma click_subset:
  assumes "capture_targets g \<subseteq> legal_targets g"
  shows "capture_targets (on_square_clicked E r rank file g)
           \<subseteq> legal_targets (on_square_clicked E r rank file g)"
  using assms
  by (simp add: on_square_clicked_def Let_def clear_selection_def compute_targets_subset
           split: option.splits)

lemma step_subset:
  assumes "capture_targets g \<subseteq> legal_targets g"
  shows "capture_targets (step E ev g) \<subseteq> legal_targets (step E ev g)"
  using assms by (cases ev) (simp_all add: click_subset reset_game_def clear_selection_def)

lemma run_subset:
  "capture_targets g \<subseteq> legal_targets g \<Longrightarrow>
   capture_targets (run E evs g) \<subseteq> legal_targets (run E evs g)"
  by (induction evs arbitrary: g) (simp_all add: step_subset)

text \<open>
  Claim C2. The capture targets that \<open>_compute_targets_for_selected\<close> computes are a
  subset of the legal targets it computes, and the inclusion holds in every state that any
  sequence of clicks, mode changes and resets reaches from the freshly built GUI, so in
  every reachable state with a selection.
\<close>

theorem capture_targets_subset_legal_targets:
  "capture_targets (compute_targets_for_selected E g)
     \<subseteq> legal_targets (compute_targets_for_selected E g)
   \<and> capture_targets (run E evs (init_gui E l)) \<subseteq> legal_targets (run E evs (init_gui E l))"
  by (simp add: compute_targets_subset run_subset init_gui_def)

theorem capture_targets_subset_legal_targets_witness:
  "capture_targets (compute_targets_for_selected demo ((idle_on Capture Pvp)\<lparr>selected_square := Some 1\<rparr>))
     = {8} \<and>
   legal_targets (compute_targets_for_selected demo ((idle_on Capture Pvp)\<lparr>selected_square := Some 1\<rparr>))
     = {0, 2, 8, 9, 10} \<and>
   capture_targets (compute_targets_for_selected demo ((idle_on Capture Pvp)\<lparr>selected_square := Some 1\<rparr>))
     \<subseteq> legal_targets (compute_targets_for_selected demo ((idle_on Capture Pvp)\<lparr>selected_square := Some 1\<rparr>)) \<and>
   capture_targets (run demo [Click 0 1 4] (init_gui demo quiet_link))
     \<subseteq> legal_targets (run demo [Click 0 1 4] (init_gui demo quiet_link))"
proof -
  have c: "capture_targets (compute_targets_for_selected demo ((idle_on Capture Pvp)\<lparr>selected_square := Some 1\<rparr>))
             = {8}"
    by code_simp
  have l: "legal_targets (compute_targets_for_selected demo ((idle_on Capture Pvp)\<lparr>selected_square := Some 1\<rparr>))
             = {0, 2, 8, 9, 10}"
    by code_simp
  from capture_targets_subset_legal_targets
         [of demo "(idle_on Capture Pvp)\<lparr>selected_square := Some 1\<rparr>" "[Click 0 1 4]" quiet_link]
       c l
  show ?thesis by blast
qed

section \<open>Clicks that change nothing\<close>

text \<open>
  Claim C5. With no selection, a click on a square that is empty or holds a piece of the
  side that is not to move returns the GUI as it was: still no selection, the same board,
  the same link, so nothing sent.
\<close>

theorem idle_click_elsewhere_is_noop:
  assumes "selected_square g = None"
    and "piece_at E (board g) (square file rank) = None \<or>
         (\<exists>p. piece_at E (board g) (square file rank) = Some p \<and> color p \<noteq> turn E (board g))"
  shows "on_square_clicked E r rank file g = g"
  using assms by (auto simp add: on_square_clicked_def Let_def)

theorem idle_click_elsewhere_is_noop_witness:
  "selected_square (idle_on Start Pvp) = None \<and>
   piece_at demo (board (idle_on Start Pvp)) (square 4 3) = None \<and>
   on_square_clicked demo 0 3 4 (idle_on Start Pvp) = idle_on Start Pvp \<and>
   piece_at demo (board (idle_on Start Pvp)) (square 4 6) = Some (pc Pawn Black) \<and>
   color (pc Pawn Black) \<noteq> turn demo (board (idle_on Start Pvp)) \<and>
   on_square_clicked demo 0 6 4 (idle_on Start Pvp) = idle_on Start Pvp"
proof -
  have idle: "selected_square (idle_on Start Pvp) = None"
    by (simp add: idle_on_def)
  have e4: "piece_at demo (board (idle_on Start Pvp)) (square 4 3) = None"
    by (simp add: idle_on_def demo_def demo_is_legal_def square_def start_piece_def)
  have e7: "piece_at demo (board (idle_on Start Pvp)) (square 4 6) = Some (pc Pawn Black)"
    by (simp add: idle_on_def demo_def demo_is_legal_def square_def start_piece_def)
  have other: "color (pc Pawn Black) \<noteq> turn demo (board (idle_on Start Pvp))"
    by (simp add: idle_on_def demo_def demo_is_legal_def)
  from e4 have h4: "piece_at demo (board (idle_on Start Pvp)) (square 4 3) = None \<or>
      (\<exists>p. piece_at demo (board (idle_on Start Pvp)) (square 4 3) = Some p \<and>
           color p \<noteq> turn demo (board (idle_on Start Pvp)))"
    by simp
  from e7 other have h7: "piece_at demo (board (idle_on Start Pvp)) (square 4 6) = None \<or>
      (\<exists>p. piece_at demo (board (idle_on Start Pvp)) (square 4 6) = Some p \<and>
           color p \<noteq> turn demo (board (idle_on Start Pvp)))"
    by simp
  from idle_click_elsewhere_is_noop [OF idle h4, of 0] idle_click_elsewhere_is_noop [OF idle h7, of 0]
       idle e4 e7 other
  show ?thesis by blast
qed

text \<open>
  Claim C10. When the game is over, or the mode is human against machine and Black, the
  machine's side, is to move, a click on any square returns the GUI as it was: board,
  selection, both target sets and the link are unchanged, so nothing is sent.
\<close>

theorem ignored_click_changes_nothing:
  assumes "is_game_over E (board g) \<or> (mode_var g = Pvc \<and> turn E (board g) = Black)"
  shows "on_square_clicked E r rank file g = g"
  using assms by (auto simp add: on_square_clicked_def)

theorem ignored_click_changes_nothing_witness:
  "is_game_over demo (board (idle_on BareKings Pvp)) \<and>
   on_square_clicked demo 0 0 4 (idle_on BareKings Pvp) = idle_on BareKings Pvp \<and>
   mode_var (idle_on AfterE4 Pvc) = Pvc \<and> turn demo (board (idle_on AfterE4 Pvc)) = Black \<and>
   on_square_clicked demo 0 6 4 (idle_on AfterE4 Pvc) = idle_on AfterE4 Pvc"
proof -
  have over: "is_game_over demo (board (idle_on BareKings Pvp))"
    by (simp add: idle_on_def demo_def demo_is_legal_def)
  have machine: "mode_var (idle_on AfterE4 Pvc) = Pvc \<and> turn demo (board (idle_on AfterE4 Pvc)) = Black"
    by (simp add: idle_on_def demo_def demo_is_legal_def)
  from over have h1: "is_game_over demo (board (idle_on BareKings Pvp)) \<or>
      (mode_var (idle_on BareKings Pvp) = Pvc \<and> turn demo (board (idle_on BareKings Pvp)) = Black)"
    by simp
  from machine have h2: "is_game_over demo (board (idle_on AfterE4 Pvc)) \<or>
      (mode_var (idle_on AfterE4 Pvc) = Pvc \<and> turn demo (board (idle_on AfterE4 Pvc)) = Black)"
    by simp
  from ignored_click_changes_nothing [OF h1, of 0 0 4] ignored_click_changes_nothing [OF h2, of 0 6 4]
       over machine
  show ?thesis by blast
qed

section \<open>The second click\<close>

lemma selecting_e2_state:
  "selecting_e2 = (idle_on Start Pvp)\<lparr>selected_square := Some 12, legal_targets := {20, 28}\<rparr>"
  by code_simp

lemma selecting_a7_state:
  "selecting_a7 = (idle_on PawnA7 Pvp)\<lparr>selected_square := Some 48, legal_targets := {56}\<rparr>"
  by code_simp

lemma machine_turn_e7_state:
  "selected_square machine_turn_e7 = Some 52 \<and> board machine_turn_e7 = AfterE4 \<and>
   mode_var machine_turn_e7 = Pvc \<and> legal_targets machine_turn_e7 = {36, 44}"
  by code_simp

lemma machine_turn_a2_state:
  "machine_turn_a2 =
     (idle_on PawnA2 Pvc)\<lparr>selected_square := Some 8, legal_targets := {0}\<rparr>"
  by code_simp

text \<open>
  Claim C6, as the code has it. In a state with a selection in which clicks are not
  ignored (the game is not over, and it is not Black's move against the machine), a click
  on the selected square clears the selection and both target sets and changes nothing
  else: the board and the link stay as they were, so nothing is sent.
\<close>

theorem reclick_deselects:
  assumes "selected_square g = Some sel"
    and "\<not> is_game_over E (board g)"
    and "\<not> (mode_var g = Pvc \<and> turn E (board g) = Black)"
    and "square file rank = sel"
  shows "on_square_clicked E r rank file g =
           g\<lparr>selected_square := None, legal_targets := {}, capture_targets := {}\<rparr>"
  using assms by (auto simp add: on_square_clicked_def Let_def clear_selection_def)

theorem reclick_deselects_witness:
  "selected_square selecting_e2 = Some 12 \<and>
   \<not> is_game_over demo (board selecting_e2) \<and>
   \<not> (mode_var selecting_e2 = Pvc \<and> turn demo (board selecting_e2) = Black) \<and>
   square 4 1 = 12 \<and>
   on_square_clicked demo 0 1 4 selecting_e2 = idle_on Start Pvp"
proof -
  have h1: "selected_square selecting_e2 = Some 12"
    and h2: "\<not> is_game_over demo (board selecting_e2)"
    and h3: "\<not> (mode_var selecting_e2 = Pvc \<and> turn demo (board selecting_e2) = Black)"
    by (simp_all add: selecting_e2_state idle_on_def demo_def demo_is_legal_def)
  have h4: "square 4 1 = 12"
    by (simp add: square_def)
  have "on_square_clicked demo 0 1 4 selecting_e2 =
          selecting_e2\<lparr>selected_square := None, legal_targets := {}, capture_targets := {}\<rparr>"
    by (rule reclick_deselects [OF h1 h2 h3 h4])
  then have "on_square_clicked demo 0 1 4 selecting_e2 = idle_on Start Pvp"
    by (simp add: selecting_e2_state idle_on_def)
  with h1 h2 h3 h4 show ?thesis by blast
qed

text \<open>
  Claim C6 as stated fails in a reachable state with a selection: after 1. e4 in a
  two-player game Black selects the e7 pawn, the mode is switched to human against
  machine, and the click on e7 is ignored, so the selection stays.
\<close>

theorem reclick_deselects_counterexample:
  "selected_square machine_turn_e7 = Some (square 4 6) \<and>
   selected_square (on_square_clicked demo 0 6 4 machine_turn_e7) \<noteq> None"
  by code_simp

lemma drop_selection:
  assumes "selected_square g = Some sel"
    and "\<not> is_game_over E (board g)"
    and "\<not> (mode_var g = Pvc \<and> turn E (board g) = Black)"
    and "square file rank \<noteq> sel"
    and "\<not> is_legal E (board g) \<lparr>from_square = sel, to_square = square file rank, promotion = None\<rparr>"
    and "is_pawn_promotion E g sel (square file rank) \<longrightarrow>
         \<not> is_legal E (board g)
             \<lparr>from_square = sel, to_square = square file rank, promotion = Some Queen\<rparr>"
  shows "on_square_clicked E r rank file g =
           g\<lparr>selected_square := None, legal_targets := {}, capture_targets := {}\<rparr>"
  using assms by (auto simp add: on_square_clicked_def Let_def clear_selection_def)

text \<open>
  Claim C3, as the code has it. In a state with a selection in which clicks are not
  ignored (the game is not over, and it is not Black's move against the machine), take a
  click on a square other than the selected one that is no legal destination in the sense
  the code tests: the library's legality test \<open>move in board.legal_moves\<close> rejects the
  plain move from the selected square to it and, where the selected piece is a pawn
  reaching its last rank, the queen promotion too. The click clears the selection and both
  target sets and changes nothing else: no move is applied, the link is untouched, nothing
  is raised.
\<close>

theorem illegal_target_drops_selection:
  assumes "selected_square g = Some sel"
    and "\<not> is_game_over E (board g)"
    and "\<not> (mode_var g = Pvc \<and> turn E (board g) = Black)"
    and "square file rank \<noteq> sel"
    and "\<not> is_legal E (board g) \<lparr>from_square = sel, to_square = square file rank, promotion = None\<rparr>"
    and "is_pawn_promotion E g sel (square file rank) \<longrightarrow>
         \<not> is_legal E (board g)
             \<lparr>from_square = sel, to_square = square file rank, promotion = Some Queen\<rparr>"
  shows "on_square_clicked E r rank file g =
           g\<lparr>selected_square := None, legal_targets := {}, capture_targets := {}\<rparr>"
  using assms by (rule drop_selection)

theorem illegal_target_drops_selection_witness:
  "selected_square selecting_e2 = Some 12 \<and>
   \<not> is_game_over demo (board selecting_e2) \<and>
   \<not> (mode_var selecting_e2 = Pvc \<and> turn demo (board selecting_e2) = Black) \<and>
   square 4 4 \<noteq> 12 \<and>
   \<not> is_legal demo (board selecting_e2) (mv 12 (square 4 4)) \<and>
   \<not> is_pawn_promotion demo selecting_e2 12 (square 4 4) \<and>
   on_square_clicked demo 0 4 4 selecting_e2 = idle_on Start Pvp"
proof -
  have h1: "selected_square selecting_e2 = Some 12"
    and h2: "\<not> is_game_over demo (board selecting_e2)"
    and h3: "\<not> (mode_var selecting_e2 = Pvc \<and> turn demo (board selecting_e2) = Black)"
    by (simp_all add: selecting_e2_state idle_on_def demo_def demo_is_legal_def)
  have h4: "square 4 4 \<noteq> 12"
    by (simp add: square_def)
  have h5: "\<not> is_legal demo (board selecting_e2) (mv 12 (square 4 4))"
    by (simp add: selecting_e2_state idle_on_def demo_def demo_is_legal_def square_def)
  have np: "\<not> is_pawn_promotion demo selecting_e2 12 (square 4 4)"
    by (simp add: selecting_e2_state idle_on_def demo_def demo_is_legal_def square_def is_pawn_promotion_def
          start_piece_def square_rank_def)
  then have h6: "is_pawn_promotion demo selecting_e2 12 (square 4 4) \<longrightarrow>
      \<not> is_legal demo (board selecting_e2) (pm 12 (square 4 4) Queen)"
    by simp
  have "on_square_clicked demo 0 4 4 selecting_e2 =
          selecting_e2\<lparr>selected_square := None, legal_targets := {}, capture_targets := {}\<rparr>"
    by (rule illegal_target_drops_selection [OF h1 h2 h3 h4 h5 h6])
  then have "on_square_clicked demo 0 4 4 selecting_e2 = idle_on Start Pvp"
    by (simp add: selecting_e2_state idle_on_def)
  with h1 h2 h3 h4 h5 np show ?thesis by blast
qed

text \<open>
  Claim C3 as stated fails in the same reachable state: with the e7 pawn selected and
  Black to move against the machine, a click on a3, which is neither the selected square
  nor the destination of a legal move from it, is ignored and the selection stays.
\<close>

theorem illegal_target_drops_selection_counterexample:
  "selected_square machine_turn_e7 = Some 52 \<and> square 0 2 \<noteq> 52 \<and>
   \<not> is_legal demo (board machine_turn_e7) (mv 52 (square 0 2)) \<and>
   \<not> is_legal demo (board machine_turn_e7) (pm 52 (square 0 2) Queen) \<and>
   square 0 2 \<notin> legal_targets machine_turn_e7 \<and>
   selected_square (on_square_clicked demo 0 2 0 machine_turn_e7) \<noteq> None"
  by code_simp

text \<open>
  The same in terms of the enumeration: where the legality test accepts, of the two
  candidate moves, only what the enumeration lists, a click on a square that is not the
  destination of any enumerated move from the selected square drops the selection.
\<close>

lemma click_outside_enumeration_drops_selection:
  assumes "selected_square g = Some sel"
    and "\<not> is_game_over E (board g)"
    and "\<not> (mode_var g = Pvc \<and> turn E (board g) = Black)"
    and "square file rank \<noteq> sel"
    and away: "\<forall>m \<in> set (legal_moves E (board g)).
                 from_square m = sel \<longrightarrow> to_square m \<noteq> square file rank"
    and tie: "\<forall>p \<in> {None, Some Queen}.
                is_legal E (board g) \<lparr>from_square = sel, to_square = square file rank, promotion = p\<rparr> \<longrightarrow>
                \<lparr>from_square = sel, to_square = square file rank, promotion = p\<rparr>
                  \<in> set (legal_moves E (board g))"
  shows "on_square_clicked E r rank file g =
           g\<lparr>selected_square := None, legal_targets := {}, capture_targets := {}\<rparr>"
proof -
  have "\<And>p. p \<in> {None, Some Queen} \<Longrightarrow>
          \<not> is_legal E (board g) \<lparr>from_square = sel, to_square = square file rank, promotion = p\<rparr>"
  proof
    fix p
    assume "p \<in> {None, Some Queen}"
      and "is_legal E (board g) \<lparr>from_square = sel, to_square = square file rank, promotion = p\<rparr>"
    with tie have "\<lparr>from_square = sel, to_square = square file rank, promotion = p\<rparr>
                     \<in> set (legal_moves E (board g))"
      by blast
    with away show False by force
  qed
  then have "\<not> is_legal E (board g) \<lparr>from_square = sel, to_square = square file rank, promotion = None\<rparr>"
    and "\<not> is_legal E (board g) \<lparr>from_square = sel, to_square = square file rank, promotion = Some Queen\<rparr>"
    by simp_all
  then show ?thesis
    using assms(1-4) by (intro drop_selection) blast+
qed

text \<open>
  That tie is needed. python-chess enumerates castling as the king's move e1-g1 only,
  but its legality test also accepts the king moving onto its own rook, e1-h1, and
  \<open>push\<close> castles on it. With the king of \<open>CastleReady\<close> selected, h1 is neither the
  selected square nor the destination of an enumerated move (it is outside the legal
  targets), the click is not ignored, and yet the click on h1 castles and a FEN line is
  written.
\<close>

lemma click_on_own_rook_castles_example:
  "selected_square selecting_e1 = Some 4 \<and> square 7 0 \<noteq> 4 \<and>
   square 7 0 \<notin> legal_targets selecting_e1 \<and>
   mv 4 (square 7 0) \<notin> set (legal_moves demo (board selecting_e1)) \<and>
   pm 4 (square 7 0) Queen \<notin> set (legal_moves demo (board selecting_e1)) \<and>
   \<not> is_game_over demo (board selecting_e1) \<and> mode_var selecting_e1 = Pvp \<and>
   board (on_square_clicked demo 0 0 7 selecting_e1) = Castled \<and>
   tx (ser (link (on_square_clicked demo 0 0 7 selecting_e1)))
     = map of_nat (demo_fen Castled @ [10])"
  by code_simp

text \<open>
  Claim C4, as the code has it. In a state with a selection in which clicks are not
  ignored, let the selected square hold a pawn of the side to move, let the click go to
  another square, on the last rank for the pawn's colour, and let the legality test
  reject the plain move. Then the queen promotion is tried. If it is legal, it is the move
  pushed on the board (followed by the machine's reply when the mode is human against
  machine and the game goes on) and the selection is cleared; if it is not, the selection
  is dropped and nothing else changes.
\<close>

theorem pawn_promotion_defaults_to_queen:
  assumes sel: "selected_square g = Some sel"
    and live: "\<not> is_game_over E (board g)" "\<not> (mode_var g = Pvc \<and> turn E (board g) = Black)"
    and sq: "sq = square file rank" "sq \<noteq> sel"
    and pawn: "piece_at E (board g) sel = Some p" "piece_type p = Pawn" "color p = turn E (board g)"
    and last: "square_rank sq = (if color p = White then 7 else 0)"
    and plain: "\<not> is_legal E (board g) \<lparr>from_square = sel, to_square = sq, promotion = None\<rparr>"
  shows "(is_legal E (board g) \<lparr>from_square = sel, to_square = sq, promotion = Some Queen\<rparr> \<longrightarrow>
            selected_square (on_square_clicked E r rank file g) = None \<and>
            board (on_square_clicked E r rank file g) =
              (let b' = push E (board g) \<lparr>from_square = sel, to_square = sq, promotion = Some Queen\<rparr>
               in if mode_var g = Pvc \<and> \<not> is_game_over E b'
                  then board (make_computer_move E r (g\<lparr>board := b'\<rparr>)) else b'))
       \<and> (\<not> is_legal E (board g) \<lparr>from_square = sel, to_square = sq, promotion = Some Queen\<rparr> \<longrightarrow>
            on_square_clicked E r rank file g =
              g\<lparr>selected_square := None, legal_targets := {}, capture_targets := {}\<rparr>)"
proof -
  have pp: "is_pawn_promotion E g sel sq"
    using pawn last by (cases "color p") (auto simp add: is_pawn_promotion_def Let_def)
  from live have guard: "(mode_var g = Pvc \<and> turn E (board g) = Black) = False"
    by simp
  show ?thesis
  proof (cases "is_legal E (board g) \<lparr>from_square = sel, to_square = sq, promotion = Some Queen\<rparr>")
    case True
    with sel live(1) sq plain pp show ?thesis
      by (simp add: on_square_clicked_def guard Let_def clear_selection_def
            make_computer_move_board)
  next
    case False
    with sel live(1) sq plain pp show ?thesis
      by (simp add: on_square_clicked_def guard Let_def clear_selection_def)
  qed
qed

theorem pawn_promotion_defaults_to_queen_witness:
  "selected_square selecting_a7 = Some 48 \<and>
   \<not> is_game_over demo (board selecting_a7) \<and>
   \<not> (mode_var selecting_a7 = Pvc \<and> turn demo (board selecting_a7) = Black) \<and>
   piece_at demo (board selecting_a7) 48 = Some (pc Pawn White) \<and>
   turn demo (board selecting_a7) = White \<and>
   square_rank (square 0 7) = 7 \<and>
   \<not> is_legal demo (board selecting_a7) (mv 48 (square 0 7)) \<and>
   is_legal demo (board selecting_a7) (pm 48 (square 0 7) Queen) \<and>
   selected_square (on_square_clicked demo 0 7 0 selecting_a7) = None \<and>
   board (on_square_clicked demo 0 7 0 selecting_a7) = QueenA8"
proof -
  have h1: "selected_square selecting_a7 = Some 48"
    and h2: "\<not> is_game_over demo (board selecting_a7)"
    and h3: "\<not> (mode_var selecting_a7 = Pvc \<and> turn demo (board selecting_a7) = Black)"
    and h4: "piece_at demo (board selecting_a7) 48 = Some (pc Pawn White)"
    and h5: "piece_type (pc Pawn White) = Pawn"
    and h6: "color (pc Pawn White) = turn demo (board selecting_a7)"
    and t: "turn demo (board selecting_a7) = White"
    by (simp_all add: selecting_a7_state idle_on_def demo_def demo_is_legal_def)
  have s1: "square 0 7 = square 0 7" and s2: "square 0 7 \<noteq> 48"
    by (simp_all add: square_def)
  have h7: "square_rank (square 0 7) = (if color (pc Pawn White) = White then 7 else 0)"
    and r: "square_rank (square 0 7) = 7"
    by (simp_all add: square_def square_rank_def)
  have h8: "\<not> is_legal demo (board selecting_a7) (mv 48 (square 0 7))"
    and q: "is_legal demo (board selecting_a7) (pm 48 (square 0 7) Queen)"
    by (simp_all add: selecting_a7_state idle_on_def demo_def demo_is_legal_def square_def)
  have b: "push demo (board selecting_a7) (pm 48 (square 0 7) Queen) = QueenA8"
    and m: "mode_var selecting_a7 = Pvp"
    by (simp_all add: selecting_a7_state idle_on_def demo_def demo_is_legal_def square_def)
  from pawn_promotion_defaults_to_queen [OF h1 h2 h3 s1 s2 h4 h5 h6 h7 h8, of 0] q
  have "selected_square (on_square_clicked demo 0 7 0 selecting_a7) = None \<and>
        board (on_square_clicked demo 0 7 0 selecting_a7) = QueenA8"
    by (simp add: b m)
  with h1 h2 h3 h4 t r h8 q show ?thesis by blast
qed

text \<open>
  Claim C4 as stated fails in a state with a selection: Black has selected the a2 pawn
  of \<open>PawnA2\<close>, the mode has been switched to human against machine, and the click on
  a1, where only the promotion is legal, is ignored: no promotion is pushed on the board.
\<close>

theorem pawn_promotion_defaults_to_queen_counterexample:
  "selected_square machine_turn_a2 = Some 8 \<and>
   piece_at demo (board machine_turn_a2) 8 = Some (pc Pawn Black) \<and>
   turn demo (board machine_turn_a2) = Black \<and>
   square_rank (square 0 0) = 0 \<and>
   \<not> is_legal demo (board machine_turn_a2) (mv 8 (square 0 0)) \<and>
   is_legal demo (board machine_turn_a2) (pm 8 (square 0 0) Queen) \<and>
   board (on_square_clicked demo 0 0 0 machine_turn_a2) = board machine_turn_a2 \<and>
   board (on_square_clicked demo 0 0 0 machine_turn_a2)
     \<noteq> push demo (board machine_turn_a2) (pm 8 (square 0 0) Queen)"
  by code_simp

section \<open>The machine's move\<close>

lemma choice_in_set: "xs \<noteq> [] \<Longrightarrow> choice xs r \<in> set xs"
  by (simp add: choice_def)

lemma card_positions: "card {k. k < length xs \<and> xs ! k = m} = count_list xs m"
proof (induction xs)
  case Nil
  then show ?case by simp
next
  case (Cons x xs)
  let ?S = "{k. k < length xs \<and> xs ! k = m}"
  have fin: "finite ?S" by simp
  have split: "{k. k < length (x # xs) \<and> (x # xs) ! k = m} =
               (if x = m then {0} else {}) \<union> Suc ` ?S"
  proof (rule set_eqI)
    fix k
    show "k \<in> {k. k < length (x # xs) \<and> (x # xs) ! k = m} \<longleftrightarrow>
          k \<in> (if x = m then {0} else {}) \<union> Suc ` ?S"
      by (cases k) auto
  qed
  have "card ((if x = m then {0} else {}) \<union> Suc ` ?S) =
        (if x = m then 1 else 0) + card (Suc ` ?S)"
    using fin by (auto simp add: card_insert_if)
  also have "card (Suc ` ?S) = card ?S"
    by (simp add: card_image)
  finally show ?case
    using Cons.IH split by simp
qed

lemma card_choice_periods:
  "card {r. r < N * length xs \<and> choice xs r = m} = N * count_list xs m"
proof (cases "xs = []")
  case True
  then show ?thesis by simp
next
  case False
  then have n: "0 < length xs" by simp
  let ?n = "length xs"
  let ?P = "\<lambda>r. xs ! (r mod ?n) = m"
  have "card {r. r < N * ?n \<and> ?P r} = N * count_list xs m"
  proof (induction N)
    case 0
    then show ?case by simp
  next
    case (Suc N)
    let ?A = "{r. r < N * ?n \<and> ?P r}"
    let ?B = "(\<lambda>k. N * ?n + k) ` {k. k < ?n \<and> xs ! k = m}"
    have split: "{r. r < Suc N * ?n \<and> ?P r} = ?A \<union> ?B"
    proof (rule set_eqI)
      fix r
      show "r \<in> {r. r < Suc N * ?n \<and> ?P r} \<longleftrightarrow> r \<in> ?A \<union> ?B"
      proof (cases "r < N * ?n")
        case True
        then have "r \<notin> ?B" by auto
        with True show ?thesis by auto
      next
        case False
        then have r: "r = N * ?n + (r - N * ?n)" by simp
        have m1: "r < Suc N * ?n \<Longrightarrow> r mod ?n = r - N * ?n"
          using False by (metis r add.commute add_less_cancel_left mod_less mod_mult_self1
              mult.commute mult_Suc)
        have m2: "\<And>k. k < ?n \<Longrightarrow> (N * ?n + k) mod ?n = k"
          by simp
        show ?thesis
        proof
          assume "r \<in> {r. r < Suc N * ?n \<and> ?P r}"
          then have lt: "r < Suc N * ?n" and P: "?P r" by auto
          from lt False have "r - N * ?n < ?n" by simp
          moreover from P m1 [OF lt] have "xs ! (r - N * ?n) = m" by simp
          ultimately have "r - N * ?n \<in> {k. k < ?n \<and> xs ! k = m}" by simp
          then have "N * ?n + (r - N * ?n) \<in> ?B" by (rule imageI)
          with r show "r \<in> ?A \<union> ?B" by simp
        next
          assume "r \<in> ?A \<union> ?B"
          with False have "r \<in> ?B" by auto
          then obtain k where k: "k < ?n" "xs ! k = m" "r = N * ?n + k" by auto
          with m2 [OF k(1)] show "r \<in> {r. r < Suc N * ?n \<and> ?P r}" by simp
        qed
      qed
    qed
    have disj: "?A \<inter> ?B = {}" by auto
    have finA: "finite ?A" and finB: "finite ?B" by simp_all
    have "card ?B = card {k. k < ?n \<and> xs ! k = m}"
      by (rule card_image) (simp add: inj_on_def)
    then have cB: "card ?B = count_list xs m" by (simp add: card_positions)
    have "card (?A \<union> ?B) = card ?A + card ?B"
      using finA finB disj by (rule card_Un_disjoint)
    with Suc.IH cB split show ?case by simp
  qed
  then show ?thesis by (simp add: choice_def)
qed

text \<open>
  Claim C9. The policy is called on a board on which the game is not over: the click
  handler checks it first. If the enumeration of legal moves is not empty,
  \<open>_make_computer_move\<close> pushes the move that \<open>random.choice\<close> draws from the
  enumeration, which is one of its members. The draw is uniform: let the generator's
  output range over any whole number \<open>N\<close> of periods of the enumeration's length; then
  the outputs on which the policy plays a given move \<open>m\<close> of the enumeration (told
  apart from the others by the board it leads to) number \<open>N\<close> times the occurrences
  of \<open>m\<close>, the same for every move. If the enumeration is empty, or the game is over,
  the GUI is returned as it was, no move applied.
\<close>

theorem computer_move_is_drawn_from_legal_moves:
  "(\<not> is_game_over E (board g) \<and> legal_moves E (board g) \<noteq> [] \<longrightarrow>
      choice (legal_moves E (board g)) r \<in> set (legal_moves E (board g)) \<and>
      board (make_computer_move E r g) = push E (board g) (choice (legal_moves E (board g)) r))
   \<and> (\<not> is_game_over E (board g) \<and> m \<in> set (legal_moves E (board g)) \<and>
       (\<forall>m' \<in> set (legal_moves E (board g)).
          push E (board g) m' = push E (board g) m \<longrightarrow> m' = m) \<longrightarrow>
       card {r. r < N * length (legal_moves E (board g)) \<and>
                board (make_computer_move E r g) = push E (board g) m}
         = N * count_list (legal_moves E (board g)) m)
   \<and> (is_game_over E (board g) \<or> legal_moves E (board g) = [] \<longrightarrow> make_computer_move E r g = g)"
proof -
  let ?ms = "legal_moves E (board g)"
  have moved: "\<not> is_game_over E (board g) \<and> ?ms \<noteq> [] \<longrightarrow>
      choice ?ms r \<in> set ?ms \<and>
      board (make_computer_move E r g) = push E (board g) (choice ?ms r)"
    by (simp add: make_computer_move_board choice_in_set)
  have uniform: "\<not> is_game_over E (board g) \<and> m \<in> set ?ms \<and>
       (\<forall>m' \<in> set ?ms. push E (board g) m' = push E (board g) m \<longrightarrow> m' = m) \<longrightarrow>
       card {r. r < N * length ?ms \<and> board (make_computer_move E r g) = push E (board g) m}
         = N * count_list ?ms m"
  proof (intro impI, elim conjE)
    assume live: "\<not> is_game_over E (board g)" and m: "m \<in> set ?ms"
      and only: "\<forall>m' \<in> set ?ms. push E (board g) m' = push E (board g) m \<longrightarrow> m' = m"
    from m have ne: "?ms \<noteq> []" by auto
    have "\<And>k. board (make_computer_move E k g) = push E (board g) m \<longleftrightarrow> choice ?ms k = m"
    proof -
      fix k
      have "choice ?ms k \<in> set ?ms" using ne by (rule choice_in_set)
      with only have "push E (board g) (choice ?ms k) = push E (board g) m \<longleftrightarrow> choice ?ms k = m"
        by auto
      with live ne show "board (make_computer_move E k g) = push E (board g) m \<longleftrightarrow> choice ?ms k = m"
        by (simp add: make_computer_move_board)
    qed
    then have "{r. r < N * length ?ms \<and> board (make_computer_move E r g) = push E (board g) m}
               = {r. r < N * length ?ms \<and> choice ?ms r = m}"
      by simp
    then show "card {r. r < N * length ?ms \<and> board (make_computer_move E r g) = push E (board g) m}
                 = N * count_list ?ms m"
      by (simp only: card_choice_periods)
  qed
  have stay: "is_game_over E (board g) \<or> ?ms = [] \<longrightarrow> make_computer_move E r g = g"
    by (auto simp add: make_computer_move_def)
  from moved uniform stay show ?thesis by blast
qed

theorem computer_move_is_drawn_from_legal_moves_witness:
  "\<not> is_game_over demo (board (idle_on AfterE4 Pvc)) \<and>
   legal_moves demo (board (idle_on AfterE4 Pvc)) \<noteq> [] \<and>
   mv 52 36 \<in> set (legal_moves demo (board (idle_on AfterE4 Pvc))) \<and>
   choice (legal_moves demo (board (idle_on AfterE4 Pvc))) 15 = mv 52 36 \<and>
   board (make_computer_move demo 15 (idle_on AfterE4 Pvc)) = AfterE4E5 \<and>
   card {r. r < 3 * length (legal_moves demo (board (idle_on AfterE4 Pvc))) \<and>
            board (make_computer_move demo r (idle_on AfterE4 Pvc)) = AfterE4E5} = 3"
proof -
  let ?g = "idle_on AfterE4 Pvc"
  have h1: "\<not> is_game_over demo (board ?g)"
    and h2: "legal_moves demo (board ?g) \<noteq> []"
    and h3: "mv 52 36 \<in> set (legal_moves demo (board ?g))"
    by (simp_all add: idle_on_def demo_def demo_is_legal_def)
  have h4: "\<forall>m' \<in> set (legal_moves demo (board ?g)).
              push demo (board ?g) m' = push demo (board ?g) (mv 52 36) \<longrightarrow> m' = mv 52 36"
    by (simp add: idle_on_def demo_def demo_is_legal_def)
  have c: "choice (legal_moves demo (board ?g)) 15 = mv 52 36"
    by (simp add: idle_on_def demo_def demo_is_legal_def choice_def)
  have p: "push demo (board ?g) (mv 52 36) = AfterE4E5"
    by (simp add: idle_on_def demo_def demo_is_legal_def)
  have n: "count_list (legal_moves demo (board ?g)) (mv 52 36) = 1"
    by (simp add: idle_on_def demo_def demo_is_legal_def)
  from computer_move_is_drawn_from_legal_moves [of demo ?g 15 "mv 52 36" 3] h1 h2 h3 h4
  have "board (make_computer_move demo 15 ?g) =
          push demo (board ?g) (choice (legal_moves demo (board ?g)) 15) \<and>
        card {r. r < 3 * length (legal_moves demo (board ?g)) \<and>
                 board (make_computer_move demo r ?g) = push demo (board ?g) (mv 52 36)}
          = 3 * count_list (legal_moves demo (board ?g)) (mv 52 36)"
    by blast
  with h1 h2 h3 c p n show ?thesis by simp
qed

section \<open>Two clicks make a move\<close>

lemma read_line_tx [simp]: "tx (ser (snd (read_line l))) = tx (ser l)"
  by (simp add: read_line_def ser_readline_def split: list.splits)

lemma square_div_mod [simp]: "square (s mod 8) (s div 8) = s"
  by (simp add: square_def)

lemma send_position_tx:
  assumes "connected (ser (link g))" and "utf8_encode (fen E (board g)) = Some bs"
  shows "tx (ser (link (send_position_to_arduino E g))) =
           tx (ser (link g)) @ bs @ (if endswith_newline (fen E (board g)) then [] else [10])"
  using assms by (simp add: send_position_to_arduino_def send_fen_def send_line_ok)

lemma clear_after_select:
  "clear_selection ((compute_targets_for_selected E (g\<lparr>selected_square := Some f\<rparr>))\<lparr>board := b\<rparr>)
     = clear_selection (g\<lparr>board := b\<rparr>)"
  by (simp add: compute_targets_for_selected_def clear_selection_def split: prod.splits)

lemma second_click_applies:
  assumes sel: "selected_square h = Some (from_square m)"
    and live: "\<not> is_game_over E (board h)" "\<not> (mode_var h = Pvc \<and> turn E (board h) = Black)"
    and ne: "from_square m \<noteq> to_square m"
    and legal: "is_legal E (board h) m"
    and kind: "promotion m = None \<or>
               (promotion m = Some Queen \<and>
                \<not> is_legal E (board h)
                    \<lparr>from_square = from_square m, to_square = to_square m, promotion = None\<rparr> \<and>
                is_pawn_promotion E h (from_square m) (to_square m))"
  shows "on_square_clicked E r (to_square m div 8) (to_square m mod 8) h =
           (let g2 = send_position_to_arduino E
                       (clear_selection (h\<lparr>board := push E (board h) m\<rparr>));
                g3 = g2\<lparr>link := snd (read_line (link g2))\<rparr>
            in if mode_var h = Pvc \<and> \<not> is_game_over E (push E (board h) m)
               then make_computer_move E r g3 else g3)"
proof -
  obtain f t pr where m: "m = \<lparr>from_square = f, to_square = t, promotion = pr\<rparr>"
    by (cases m) simp
  from live have guard: "(mode_var h = Pvc \<and> turn E (board h) = Black) = False"
    by simp
  from kind show ?thesis
  proof
    assume "promotion m = None"
    with sel live(1) ne legal show ?thesis
      unfolding m by (simp add: on_square_clicked_def guard Let_def clear_selection_def)
  next
    assume "promotion m = Some Queen \<and>
            \<not> is_legal E (board h)
                \<lparr>from_square = from_square m, to_square = to_square m, promotion = None\<rparr> \<and>
            is_pawn_promotion E h (from_square m) (to_square m)"
    with sel live(1) ne legal show ?thesis
      unfolding m by (simp add: on_square_clicked_def guard Let_def clear_selection_def)
  qed
qed

lemma two_clicks_general:
  assumes m: "m \<in> set (legal_moves E (board g))"
    and coh: "engine_coherent E (board g)"
    and kind: "promotion m = None \<or> promotion m = Some Queen"
    and idle: "selected_square g = None"
    and live: "\<not> is_game_over E (board g)"
    and mine: "\<not> (mode_var g = Pvc \<and> turn E (board g) = Black)"
    and g': "g' = on_square_clicked E r2 (to_square m div 8) (to_square m mod 8)
                    (on_square_clicked E r1 (from_square m div 8) (from_square m mod 8) g)"
    and h: "h = (let g2 = send_position_to_arduino E
                            (clear_selection (g\<lparr>board := push E (board g) m\<rparr>))
                 in g2\<lparr>link := snd (read_line (link g2))\<rparr>)"
  shows "g' = (if mode_var g = Pvc \<and> \<not> is_game_over E (push E (board g) m)
               then make_computer_move E r2 h else h)"
proof -
  let ?s = "on_square_clicked E r1 (from_square m div 8) (from_square m mod 8) g"
  from m coh obtain p where
    legal: "is_legal E (board g) m" and ne: "from_square m \<noteq> to_square m" and
    p: "piece_at E (board g) (from_square m) = Some p" "color p = turn E (board g)" and
    promo: "promotion m \<noteq> None \<longrightarrow>
              piece_type p = Pawn \<and>
              square_rank (to_square m) = (if color p = White then 7 else 0) \<and>
              \<not> is_legal E (board g) (m\<lparr>promotion := None\<rparr>)"
  proof -
    from coh m have c: "is_legal E (board g) m \<and> from_square m \<noteq> to_square m \<and>
        (case piece_at E (board g) (from_square m) of
           None \<Rightarrow> False
         | Some p \<Rightarrow>
             color p = turn E (board g) \<and>
             (promotion m \<noteq> None \<longrightarrow>
                piece_type p = Pawn \<and>
                square_rank (to_square m) = (if color p = White then 7 else 0) \<and>
                \<not> is_legal E (board g) (m\<lparr>promotion := None\<rparr>)))"
      unfolding engine_coherent_def by blast
    with that show ?thesis
      by (cases "piece_at E (board g) (from_square m)") simp_all
  qed
  from mine have guard: "(mode_var g = Pvc \<and> turn E (board g) = Black) = False"
    by simp
  have s: "?s = compute_targets_for_selected E (g\<lparr>selected_square := Some (from_square m)\<rparr>)"
    using idle live p by (simp add: on_square_clicked_def guard Let_def)
  have sb: "board ?s = board g" and sm: "mode_var ?s = mode_var g"
    and ss: "selected_square ?s = Some (from_square m)"
    by (simp_all add: s)
  have k: "promotion m = None \<or>
           (promotion m = Some Queen \<and>
            \<not> is_legal E (board ?s)
                \<lparr>from_square = from_square m, to_square = to_square m, promotion = None\<rparr> \<and>
            is_pawn_promotion E ?s (from_square m) (to_square m))"
  proof (cases "promotion m")
    case None
    then show ?thesis by simp
  next
    case (Some q)
    with kind have q: "promotion m = Some Queen" by simp
    have "m\<lparr>promotion := None\<rparr> =
            \<lparr>from_square = from_square m, to_square = to_square m, promotion = None\<rparr>"
      by simp
    with promo q have "\<not> is_legal E (board g)
        \<lparr>from_square = from_square m, to_square = to_square m, promotion = None\<rparr>"
      by simp
    moreover have "is_pawn_promotion E ?s (from_square m) (to_square m)"
      using promo q p by (cases "color p") (simp_all add: is_pawn_promotion_def sb Let_def)
    ultimately show ?thesis using q by (simp add: sb)
  qed
  have "g' = (let g2 = send_position_to_arduino E
                         (clear_selection (?s\<lparr>board := push E (board ?s) m\<rparr>));
                  g3 = g2\<lparr>link := snd (read_line (link g2))\<rparr>
              in if mode_var ?s = Pvc \<and> \<not> is_game_over E (push E (board ?s) m)
                 then make_computer_move E r2 g3 else g3)"
    unfolding g' using ss _ _ ne _ k
    by (rule second_click_applies) (simp_all add: sb sm live mine legal)
  then show ?thesis
    by (simp add: h Let_def sb sm s clear_after_select)
qed

text \<open>
  Claim C1, as the code has it. Take a board on which the game is not over and the click
  is not ignored (it is not Black's move against the machine), with no selection, and a
  move of its enumeration of legal moves that carries no promotion piece or the queen, the
  library keeping its contract on that board. Clicking the move's origin and then its
  destination clears the selection and both target sets and pushes the move. With two
  players, or when the move ends the game, the board is the one the move gives and, on a
  connected port, exactly one line is appended to the octets written: the UTF-8 octets of
  the FEN of the new board and a newline (none added if the FEN ends in one). Against the
  machine, when the game goes on, that board and that line are reached first and the
  machine's move is then made from there.
\<close>

theorem two_clicks_apply_the_move:
  assumes "m \<in> set (legal_moves E (board g))"
    and "engine_coherent E (board g)"
    and "promotion m = None \<or> promotion m = Some Queen"
    and "selected_square g = None"
    and "\<not> is_game_over E (board g)"
    and "\<not> (mode_var g = Pvc \<and> turn E (board g) = Black)"
  shows "let b' = push E (board g) m;
             g' = on_square_clicked E r2 (to_square m div 8) (to_square m mod 8)
                    (on_square_clicked E r1 (from_square m div 8) (from_square m mod 8) g);
             line = bs @ (if endswith_newline (fen E b') then [] else [10]);
             port_ok = (connected (ser (link g)) \<and> utf8_encode (fen E b') = Some bs)
         in selected_square g' = None \<and> legal_targets g' = {} \<and> capture_targets g' = {} \<and>
            (\<not> (mode_var g = Pvc \<and> \<not> is_game_over E b') \<longrightarrow>
               board g' = b' \<and>
               (port_ok \<longrightarrow> tx (ser (link g')) = tx (ser (link g)) @ line)) \<and>
            (mode_var g = Pvc \<and> \<not> is_game_over E b' \<longrightarrow>
               (\<exists>h. board h = b' \<and>
                    (port_ok \<longrightarrow> tx (ser (link h)) = tx (ser (link g)) @ line) \<and>
                    g' = make_computer_move E r2 h))"
proof -
  let ?b = "push E (board g) m"
  let ?g' = "on_square_clicked E r2 (to_square m div 8) (to_square m mod 8)
               (on_square_clicked E r1 (from_square m div 8) (from_square m mod 8) g)"
  let ?h = "(let g2 = send_position_to_arduino E (clear_selection (g\<lparr>board := ?b\<rparr>))
             in g2\<lparr>link := snd (read_line (link g2))\<rparr>)"
  have eq: "?g' = (if mode_var g = Pvc \<and> \<not> is_game_over E ?b
                   then make_computer_move E r2 ?h else ?h)"
    using assms refl refl by (rule two_clicks_general)
  have hb: "board ?h = ?b" and hs: "selected_square ?h = None"
    and hl: "legal_targets ?h = {}" and hc: "capture_targets ?h = {}"
    by (simp_all add: Let_def clear_selection_def)
  have ht: "connected (ser (link g)) \<and> utf8_encode (fen E ?b) = Some bs \<longrightarrow>
        tx (ser (link ?h)) =
          tx (ser (link g)) @ bs @ (if endswith_newline (fen E ?b) then [] else [10])"
  proof
    assume ok: "connected (ser (link g)) \<and> utf8_encode (fen E ?b) = Some bs"
    then show "tx (ser (link ?h)) =
          tx (ser (link g)) @ bs @ (if endswith_newline (fen E ?b) then [] else [10])"
      using send_position_tx [of "clear_selection (g\<lparr>board := ?b\<rparr>)" E bs]
      by (simp add: Let_def clear_selection_def)
  qed
  have idle': "selected_square ?g' = None \<and> legal_targets ?g' = {} \<and> capture_targets ?g' = {}"
    using hs hl hc by (simp add: eq del: send_position_fields)
  have plain: "\<not> (mode_var g = Pvc \<and> \<not> is_game_over E ?b) \<longrightarrow>
        board ?g' = ?b \<and>
        (connected (ser (link g)) \<and> utf8_encode (fen E ?b) = Some bs \<longrightarrow>
           tx (ser (link ?g')) =
             tx (ser (link g)) @ bs @ (if endswith_newline (fen E ?b) then [] else [10]))"
    using hb ht by (auto simp add: eq)
  have reply: "mode_var g = Pvc \<and> \<not> is_game_over E ?b \<longrightarrow>
        (\<exists>h. board h = ?b \<and>
             (connected (ser (link g)) \<and> utf8_encode (fen E ?b) = Some bs \<longrightarrow>
                tx (ser (link h)) =
                  tx (ser (link g)) @ bs @ (if endswith_newline (fen E ?b) then [] else [10])) \<and>
             ?g' = make_computer_move E r2 h)"
  proof
    assume r: "mode_var g = Pvc \<and> \<not> is_game_over E ?b"
    then have "?g' = make_computer_move E r2 ?h" by (simp add: eq)
    with hb ht show "\<exists>h. board h = ?b \<and>
             (connected (ser (link g)) \<and> utf8_encode (fen E ?b) = Some bs \<longrightarrow>
                tx (ser (link h)) =
                  tx (ser (link g)) @ bs @ (if endswith_newline (fen E ?b) then [] else [10])) \<and>
             ?g' = make_computer_move E r2 h"
      by blast
  qed
  from idle' plain reply show ?thesis
    unfolding Let_def by blast
qed

theorem two_clicks_apply_the_move_witness:
  "mv 12 28 \<in> set (legal_moves demo (board (idle_on Start Pvp))) \<and>
   engine_coherent demo (board (idle_on Start Pvp)) \<and>
   selected_square (idle_on Start Pvp) = None \<and>
   \<not> is_game_over demo (board (idle_on Start Pvp)) \<and>
   \<not> (mode_var (idle_on Start Pvp) = Pvc \<and> turn demo (board (idle_on Start Pvp)) = Black) \<and>
   connected (ser (link (idle_on Start Pvp))) \<and>
   utf8_encode (fen demo (push demo (board (idle_on Start Pvp)) (mv 12 28)))
     = Some (map of_nat (demo_fen AfterE4)) \<and>
   board (on_square_clicked demo 0 3 4 (on_square_clicked demo 0 1 4 (idle_on Start Pvp)))
     = AfterE4 \<and>
   selected_square (on_square_clicked demo 0 3 4 (on_square_clicked demo 0 1 4 (idle_on Start Pvp)))
     = None \<and>
   tx (ser (link (on_square_clicked demo 0 3 4 (on_square_clicked demo 0 1 4 (idle_on Start Pvp)))))
     = map of_nat (demo_fen AfterE4) @ [10] \<and>
   mode_var (idle_on Start Pvc) = Pvc \<and>
   \<not> is_game_over demo (push demo (board (idle_on Start Pvc)) (mv 12 28)) \<and>
   selected_square (on_square_clicked demo 15 3 4 (on_square_clicked demo 15 1 4 (idle_on Start Pvc)))
     = None \<and>
   board (on_square_clicked demo 15 3 4 (on_square_clicked demo 15 1 4 (idle_on Start Pvc)))
     = AfterE4E5"
proof -
  have h1: "mv 12 28 \<in> set (legal_moves demo (board (idle_on Start Pvp)))"
    and k1: "mv 12 28 \<in> set (legal_moves demo (board (idle_on Start Pvc)))"
    by (simp_all add: idle_on_def demo_def)
  have h2: "engine_coherent demo (board (idle_on Start Pvp))"
    and k2: "engine_coherent demo (board (idle_on Start Pvc))"
    by code_simp+
  have h3: "promotion (mv 12 28) = None \<or> promotion (mv 12 28) = Some Queen"
    by simp
  have h4: "selected_square (idle_on Start Pvp) = None"
    and h5: "\<not> is_game_over demo (board (idle_on Start Pvp))"
    and h6: "\<not> (mode_var (idle_on Start Pvp) = Pvc \<and> turn demo (board (idle_on Start Pvp)) = Black)"
    and h7: "connected (ser (link (idle_on Start Pvp)))"
    and k4: "selected_square (idle_on Start Pvc) = None"
    and k5: "\<not> is_game_over demo (board (idle_on Start Pvc))"
    and k6: "\<not> (mode_var (idle_on Start Pvc) = Pvc \<and> turn demo (board (idle_on Start Pvc)) = Black)"
    by (simp_all add: idle_on_def demo_def quiet_link_def)
  have h8: "utf8_encode (fen demo (push demo (board (idle_on Start Pvp)) (mv 12 28)))
              = Some (map of_nat (demo_fen AfterE4))"
    by code_simp
  have b: "push demo (board (idle_on Start Pvp)) (mv 12 28) = AfterE4"
    and b': "push demo (board (idle_on Start Pvc)) (mv 12 28) = AfterE4"
    and m: "mode_var (idle_on Start Pvp) = Pvp" and m': "mode_var (idle_on Start Pvc) = Pvc"
    and o: "\<not> is_game_over demo AfterE4"
    by (simp_all add: idle_on_def demo_def)
  have n: "\<not> endswith_newline (fen demo AfterE4)"
    by (simp add: demo_def lit_def endswith_newline_def)
  have t0: "tx (ser (link (idle_on Start Pvp))) = []"
    by (simp add: idle_on_def quiet_link_def)
  have reply: "\<And>h. board h = AfterE4 \<Longrightarrow> board (make_computer_move demo 15 h) = AfterE4E5"
    by (simp add: make_computer_move_board demo_def choice_def)
  from two_clicks_apply_the_move [OF h1 h2 h3 h4 h5 h6, of 0 0 "map of_nat (demo_fen AfterE4)"]
  have two: "board (on_square_clicked demo 0 3 4 (on_square_clicked demo 0 1 4 (idle_on Start Pvp)))
          = AfterE4 \<and>
        selected_square (on_square_clicked demo 0 3 4 (on_square_clicked demo 0 1 4 (idle_on Start Pvp)))
          = None \<and>
        tx (ser (link (on_square_clicked demo 0 3 4 (on_square_clicked demo 0 1 4 (idle_on Start Pvp)))))
          = map of_nat (demo_fen AfterE4) @ [10]"
    using h7 h8 by (simp add: Let_def b m n t0)
  from two_clicks_apply_the_move [OF k1 k2 h3 k4 k5 k6, of 15 15 "[]"]
  have "selected_square (on_square_clicked demo 15 3 4 (on_square_clicked demo 15 1 4 (idle_on Start Pvc)))
          = None \<and>
        (\<exists>h. board h = AfterE4 \<and>
             on_square_clicked demo 15 3 4 (on_square_clicked demo 15 1 4 (idle_on Start Pvc))
               = make_computer_move demo 15 h)"
    by (simp add: Let_def b' m' o) blast
  with reply have machine:
    "selected_square (on_square_clicked demo 15 3 4 (on_square_clicked demo 15 1 4 (idle_on Start Pvc)))
          = None \<and>
     board (on_square_clicked demo 15 3 4 (on_square_clicked demo 15 1 4 (idle_on Start Pvc)))
          = AfterE4E5"
    by auto
  from h1 h2 h4 h5 h6 h7 h8 two m' o b' machine show ?thesis by simp
qed

text \<open>
  Claim C1 as stated fails in a game against the machine: from the initial position,
  clicking e2 and then e4 pushes e2-e4, which is in the enumeration, and then the
  machine's reply (here e7-e5), so the board is not the one that e2-e4 gives, and two FEN
  lines are written, one per position.
\<close>

theorem two_clicks_against_machine_counterexample:
  "selected_square (idle_on Start Pvc) = None \<and>
   mv 12 28 \<in> set (legal_moves demo (board (idle_on Start Pvc))) \<and>
   board (on_square_clicked demo 15 3 4 (on_square_clicked demo 15 1 4 (idle_on Start Pvc)))
     \<noteq> push demo (board (idle_on Start Pvc)) (mv 12 28) \<and>
   tx (ser (link (on_square_clicked demo 15 3 4 (on_square_clicked demo 15 1 4 (idle_on Start Pvc)))))
     = map of_nat (demo_fen AfterE4 @ [10] @ demo_fen AfterE4E5 @ [10])"
  by code_simp

text \<open>
  Three more boards and moves on which two clicks do not do what claim C1 says, each
  met by a condition of the statement above: a game that is over although a move is
  legal (the clicks are ignored), an under-promotion (the queen is played instead), and
  a port that raises (the move is played, nothing is written).
\<close>

lemma two_clicks_game_over_example:
  "mv 4 12 \<in> set (legal_moves demo (board (idle_on BareKings Pvp))) \<and>
   on_square_clicked demo 0 1 4 (on_square_clicked demo 0 0 4 (idle_on BareKings Pvp))
     = idle_on BareKings Pvp"
  by code_simp

lemma two_clicks_underpromotion_example:
  "pm 48 56 Knight \<in> set (legal_moves demo (board (idle_on PawnA7 Pvp))) \<and>
   push demo (board (idle_on PawnA7 Pvp)) (pm 48 56 Knight) = KnightA8 \<and>
   board (on_square_clicked demo 0 7 0 (on_square_clicked demo 0 6 0 (idle_on PawnA7 Pvp)))
     = QueenA8"
  by code_simp

lemma two_clicks_port_down_example:
  "board (on_square_clicked demo 0 3 4 (on_square_clicked demo 0 1 4
            ((idle_on Start Pvp)\<lparr>link := \<lparr>ser = (ser quiet_link)\<lparr>connected := False\<rparr>\<rparr>\<rparr>)))
     = AfterE4 \<and>
   tx (ser (link (on_square_clicked demo 0 3 4 (on_square_clicked demo 0 1 4
            ((idle_on Start Pvp)\<lparr>link := \<lparr>ser = (ser quiet_link)\<lparr>connected := False\<rparr>\<rparr>\<rparr>)))))
     = []"
  by code_simp

end
